theory Spec2Isabelle
  imports Main "HOL-Library.Sublist"
begin

section \<open>Offline reconciliation core of the pharmacy point of sale (src/lib/sync.ts)\<close>

subsection \<open>Records of the entity collections\<close>

text \<open>
  \<^verbatim>\<open>mergeData\<close> is generic in \<^verbatim>\<open>T extends { id: string; updatedAt?: string; createdAt: string }\<close>.
  The three fields the reconciliation logic reads are fields of the record; everything else
  a medicine, sale, refund or expense carries is the opaque \<open>payload\<close> component.
  The source's field \<^verbatim>\<open>id\<close> is named \<open>ent_id\<close>, since \<open>id\<close> is the identity function of HOL.
  An optional field that is absent (\<^verbatim>\<open>undefined\<close>) is \<open>None\<close>.
\<close>

record 'p entity =
  ent_id :: string
  updatedAt :: "string option"
  createdAt :: string
  payload :: 'p

subsection \<open>The JavaScript built-ins that \<^verbatim>\<open>mergeData\<close> uses\<close>

text \<open>
  A JavaScript \<^verbatim>\<open>Map\<close> keeps its entries in insertion order: \<^verbatim>\<open>set\<close> on a key that is
  already present replaces the value where it stands, \<^verbatim>\<open>set\<close> on a new key appends the
  entry, \<^verbatim>\<open>get\<close> returns \<^verbatim>\<open>undefined\<close> (here \<open>None\<close>) for a missing key and
  \<^verbatim>\<open>values()\<close> lists the values in entry order. The map is an association list.
\<close>

type_synonym ('k, 'v) js_map = "('k \<times> 'v) list"

fun map_set :: "'k \<Rightarrow> 'v \<Rightarrow> ('k, 'v) js_map \<Rightarrow> ('k, 'v) js_map" where
  "map_set k v [] = [(k, v)]"
| "map_set k v ((k', v') # m) = (if k' = k then (k, v) # m else (k', v') # map_set k v m)"

fun map_get :: "('k, 'v) js_map \<Rightarrow> 'k \<Rightarrow> 'v option" where
  "map_get [] k = None"
| "map_get ((k', v') # m) k = (if k' = k then Some v' else map_get m k)"

definition map_values :: "('k, 'v) js_map \<Rightarrow> 'v list" where
  "map_values m = map snd m"

text \<open>
  Truthiness of an optional string, as \<^verbatim>\<open>item.updatedAt && remoteItem.updatedAt\<close> tests it:
  \<^verbatim>\<open>undefined\<close> and the empty string are falsy, every other string is truthy.
\<close>

fun truthy :: "string option \<Rightarrow> bool" where
  "truthy None = False"
| "truthy (Some s) = (s \<noteq> [])"

text \<open>
  \<^verbatim>\<open>new Date(s)\<close> parses a string into a time value, a whole number of milliseconds, or into
  the invalid date, whose time value is NaN. The parser is the environment's; it is the
  parameter \<open>parse\<close>, with \<open>None\<close> for the invalid date. \<^verbatim>\<open>a > b\<close> on two dates compares
  the time values, and every comparison with NaN is false.
\<close>

type_synonym date_parser = "string \<Rightarrow> int option"

definition date_gt :: "date_parser \<Rightarrow> string \<Rightarrow> string \<Rightarrow> bool" where
  "date_gt parse a b =
     (case parse a of
        None \<Rightarrow> False
      | Some x \<Rightarrow> (case parse b of None \<Rightarrow> False | Some y \<Rightarrow> y < x))"

subsection \<open>The merge algorithm\<close>

text \<open>
  \<^verbatim>\<open>remote.forEach(item => merged.set(item.id, item))\<close>
\<close>

definition seed_remote :: "'p entity list \<Rightarrow> (string, 'p entity) js_map" where
  "seed_remote remote = fold (\<lambda>item merged. map_set (ent_id item) item merged) remote []"

text \<open>
  The body of \<^verbatim>\<open>local.forEach(item => { ... })\<close>: a local item is stored when its id is not
  in the map; when it is, the item replaces the entry only if both carry a truthy
  \<^verbatim>\<open>updatedAt\<close> and the local date is greater. In the second branch both \<^verbatim>\<open>updatedAt\<close>
  are truthy, so \<open>the\<close> is applied to \<open>Some\<close> only.
\<close>

definition merge_local :: "date_parser \<Rightarrow> 'p entity \<Rightarrow> (string, 'p entity) js_map
    \<Rightarrow> (string, 'p entity) js_map" where
  "merge_local parse item merged =
     (case map_get merged (ent_id item) of
        None \<Rightarrow> map_set (ent_id item) item merged
      | Some remoteItem \<Rightarrow>
          if truthy (updatedAt item) \<and> truthy (updatedAt remoteItem) then
            (if date_gt parse (the (updatedAt item)) (the (updatedAt remoteItem))
             then map_set (ent_id item) item merged
             else merged)
          else merged)"

definition merge_map :: "date_parser \<Rightarrow> 'p entity list \<Rightarrow> 'p entity list
    \<Rightarrow> (string, 'p entity) js_map" where
  "merge_map parse local remote = fold (merge_local parse) local (seed_remote remote)"

definition mergeData :: "date_parser \<Rightarrow> 'p entity list \<Rightarrow> 'p entity list \<Rightarrow> 'p entity list" where
  "mergeData parse local remote = map_values (merge_map parse local remote)"

subsection \<open>Configuration\<close>

text \<open>
  \<^verbatim>\<open>import.meta.env\<close> holds the two build-time settings; a setting that is not defined reads
  as \<^verbatim>\<open>undefined\<close>, and \<^verbatim>\<open>x || ''\<close> turns \<^verbatim>\<open>undefined\<close> and the empty string into the
  empty string.
\<close>

record env =
  VITE_SUPABASE_URL :: "string option"
  VITE_SUPABASE_ANON_KEY :: "string option"

fun or_empty :: "string option \<Rightarrow> string" where
  "or_empty None = []"
| "or_empty (Some s) = s"

text \<open>\<^verbatim>\<open>s.includes(sub)\<close>: \<open>sub\<close> occurs in \<open>s\<close> as a contiguous run of characters.\<close>

fun str_includes :: "string \<Rightarrow> string \<Rightarrow> bool" where
  "str_includes [] sub = (sub = [])"
| "str_includes (c # cs) sub = (prefix sub (c # cs) \<or> str_includes cs sub)"

definition isSupabaseConfigured :: "env \<Rightarrow> bool" where
  "isSupabaseConfigured e =
     (let url = or_empty (VITE_SUPABASE_URL e);
          key = or_empty (VITE_SUPABASE_ANON_KEY e)
      in str_includes url ''supabase.co'' \<and> \<not> str_includes key ''placeholder'')"

subsection \<open>The remote gateway\<close>

text \<open>
  The requests the service sends through the Supabase client, each with its table name:
  \<^verbatim>\<open>from(t).upsert(rows)\<close>, \<^verbatim>\<open>from(t).select('*')\<close>, \<^verbatim>\<open>from(t).insert(row)\<close>,
  \<^verbatim>\<open>from(t).update(row).eq('id', i)\<close> and \<^verbatim>\<open>from(t).delete().eq('id', i)\<close>.
\<close>

datatype 'p remote_call =
    Upsert string "'p entity list"
  | Select string
  | Insert string "'p entity"
  | Update string "'p entity" string
  | Delete string string

text \<open>
  An awaited request either rejects, which the \<^verbatim>\<open>await\<close> turns into a thrown exception, or
  resolves to an object with the fields \<^verbatim>\<open>data\<close> and \<^verbatim>\<open>error\<close>, each of them possibly
  \<^verbatim>\<open>null\<close>. The source reads both fields: \<^verbatim>\<open>const { error } = await ...; if (error) throw error\<close>
  in the four upserts, \<^verbatim>\<open>if (medicinesResult.data)\<close> in the full synchronisation. The
  resolved object is the \<^verbatim>\<open>Result\<close> of the specification's gateway contract: a failed
  operation has its \<^verbatim>\<open>error\<close> set.
\<close>

text \<open>An error object is represented by its message.\<close>

type_synonym err = string

datatype 'p response =
    Rejects err
  | Resolves (data: "'p entity list option") (error: "err option")

text \<open>
  The remote store is outside the program. It is a parameter: a function that answers a
  request, given the requests sent before it.
\<close>

type_synonym 'p gateway = "'p remote_call list \<Rightarrow> 'p remote_call \<Rightarrow> 'p response"

subsection \<open>Queued actions and the state of the device\<close>

text \<open>
  A queued action, with its fields \<^verbatim>\<open>id\<close>, \<^verbatim>\<open>type\<close>, \<^verbatim>\<open>action\<close>, \<^verbatim>\<open>data\<close> and
  \<^verbatim>\<open>createdAt\<close>. \<^verbatim>\<open>type\<close> and \<^verbatim>\<open>action\<close> are strings, compared with \<^verbatim>\<open>===\<close> in the source.
\<close>

record 'p QueuedAction =
  qa_id :: string
  qa_type :: string
  qa_action :: string
  qa_data :: "'p entity"
  qa_createdAt :: string

text \<open>
  What the service reads and writes: the four local collections, the mutation queue and the
  connectivity flag. \<open>requests\<close> is the log of the requests sent to the remote gateway so
  far, oldest first; the program never reads it.
\<close>

record 'p state =
  medicines :: "'p entity list"
  sales :: "'p entity list"
  refunds :: "'p entity list"
  expenses :: "'p entity list"
  queue :: "'p QueuedAction list"
  offline :: bool
  requests :: "'p remote_call list"

text \<open>How a call of an \<^verbatim>\<open>async\<close> function ends: its promise resolves, or rejects with an error.\<close>

datatype completion = Returned | Threw err

text \<open>
  The module \<^verbatim>\<open>./storage\<close>, with \<^verbatim>\<open>queueStorage\<close>, \<^verbatim>\<open>offlineStorage\<close> and the four
  collection stores, is not among the sources; its operations follow the specification.
  The collection stores are the record fields \<open>medicines\<close>, \<open>sales\<close>, \<open>refunds\<close> and
  \<open>expenses\<close> themselves: \<^verbatim>\<open>getAll\<close> reads the field and \<^verbatim>\<open>save\<close> replaces the whole
  snapshot.
\<close>

text \<open>
  Modelled from the spec: \<^verbatim>\<open>queueStorage.getAll\<close>, absent from the sources, returns the
  full ordered sequence of pending actions without removing any.
\<close>

definition queueStorage_getAll :: "'p state \<Rightarrow> 'p QueuedAction list" where
  "queueStorage_getAll s = queue s"

text \<open>
  Modelled from the spec: \<^verbatim>\<open>queueStorage.remove\<close>, absent from the sources, removes by id,
  and removing an id that is not there changes nothing.
\<close>

definition queueStorage_remove :: "string \<Rightarrow> 'p state \<Rightarrow> 'p state" where
  "queueStorage_remove actionId s = s\<lparr>queue := filter (\<lambda>a. qa_id a \<noteq> actionId) (queue s)\<rparr>"

text \<open>
  Modelled from the spec: \<^verbatim>\<open>offlineStorage.setOffline\<close>, absent from the sources, writes the
  process-wide connectivity flag.
\<close>

definition offlineStorage_setOffline :: "bool \<Rightarrow> 'p state \<Rightarrow> 'p state" where
  "offlineStorage_setOffline b s = s\<lparr>offline := b\<rparr>"

text \<open>Sending a request: the gateway answers, and the request is logged.\<close>

definition request :: "'p gateway \<Rightarrow> 'p remote_call \<Rightarrow> 'p state \<Rightarrow> 'p response \<times> 'p state" where
  "request gw c s = (gw (requests s) c, s\<lparr>requests := requests s @ [c]\<rparr>)"

subsection \<open>Pushing the local collections\<close>

text \<open>
  \<^verbatim>\<open>const { error } = await supabase.from(t).upsert(rows); if (error) { ...; throw error; }\<close>:
  a rejected request throws at the \<^verbatim>\<open>await\<close>, a resolved one throws when its \<^verbatim>\<open>error\<close> is set.
\<close>

fun throw_if_error :: "'p response \<times> 'p state \<Rightarrow> completion \<times> 'p state" where
  "throw_if_error (Rejects e, s) = (Threw e, s)"
| "throw_if_error (Resolves d (Some e), s) = (Threw e, s)"
| "throw_if_error (Resolves d None, s) = (Returned, s)"

definition syncMedicines :: "env \<Rightarrow> 'p gateway \<Rightarrow> 'p state \<Rightarrow> completion \<times> 'p state" where
  "syncMedicines e gw s =
     (if \<not> isSupabaseConfigured e then (Returned, s)
      else throw_if_error (request gw (Upsert ''medicines'' (medicines s)) s))"

definition syncSales :: "env \<Rightarrow> 'p gateway \<Rightarrow> 'p state \<Rightarrow> completion \<times> 'p state" where
  "syncSales e gw s =
     (if \<not> isSupabaseConfigured e then (Returned, s)
      else throw_if_error (request gw (Upsert ''sales'' (sales s)) s))"

definition syncRefunds :: "env \<Rightarrow> 'p gateway \<Rightarrow> 'p state \<Rightarrow> completion \<times> 'p state" where
  "syncRefunds e gw s =
     (if \<not> isSupabaseConfigured e then (Returned, s)
      else throw_if_error (request gw (Upsert ''refunds'' (refunds s)) s))"

definition syncExpenses :: "env \<Rightarrow> 'p gateway \<Rightarrow> 'p state \<Rightarrow> completion \<times> 'p state" where
  "syncExpenses e gw s =
     (if \<not> isSupabaseConfigured e then (Returned, s)
      else throw_if_error (request gw (Upsert ''expenses'' (expenses s)) s))"

subsection \<open>Queue replay\<close>

text \<open>
  \<^verbatim>\<open>await supabase.from(table).insert(action.data);\<close> and its two siblings await the request
  and drop the resolved object: only a rejection throws.
\<close>

fun await_only :: "'p response \<times> 'p state \<Rightarrow> completion \<times> 'p state" where
  "await_only (Rejects e, s) = (Threw e, s)"
| "await_only (Resolves d e, s) = (Returned, s)"

definition table_of :: "string \<Rightarrow> string" where
  "table_of ty =
     (if ty = ''medicine'' then ''medicines''
      else if ty = ''sale'' then ''sales''
      else if ty = ''refund'' then ''refunds''
      else ''expenses'')"

definition processQueuedAction :: "'p gateway \<Rightarrow> 'p QueuedAction \<Rightarrow> 'p state
    \<Rightarrow> completion \<times> 'p state" where
  "processQueuedAction gw a s =
     (let table = table_of (qa_type a) in
      if qa_action a = ''create'' then
        await_only (request gw (Insert table (qa_data a)) s)
      else if qa_action a = ''update'' then
        await_only (request gw (Update table (qa_data a) (ent_id (qa_data a))) s)
      else if qa_action a = ''delete'' then
        await_only (request gw (Delete table (ent_id (qa_data a))) s)
      else (Returned, s))"

text \<open>
  The \<^verbatim>\<open>for (const action of queue)\<close> loop over the array that \<^verbatim>\<open>queueStorage.getAll()\<close>
  returned: the action is removed from the stored queue when \<^verbatim>\<open>processQueuedAction\<close> did not
  throw; the \<^verbatim>\<open>catch\<close> only logs, and the loop goes on.
\<close>

fun replay :: "'p gateway \<Rightarrow> 'p QueuedAction list \<Rightarrow> 'p state \<Rightarrow> 'p state" where
  "replay gw [] s = s"
| "replay gw (a # as) s =
     (case processQueuedAction gw a s of
        (Returned, s') \<Rightarrow> replay gw as (queueStorage_remove (qa_id a) s')
      | (Threw e, s') \<Rightarrow> replay gw as s')"

definition processQueue :: "env \<Rightarrow> 'p gateway \<Rightarrow> 'p state \<Rightarrow> completion \<times> 'p state" where
  "processQueue e gw s =
     (if \<not> isSupabaseConfigured e then (Returned, s)
      else (Returned, replay gw (queueStorage_getAll s) s))"

subsection \<open>Full synchronisation\<close>

text \<open>
  \<^verbatim>\<open>await Promise.all([...])\<close> sends the four requests in the order of the array and throws
  when one of them rejects. Which rejection it throws when several requests reject depends
  on the order in which they arrive; the embedding takes the first in the order of the array.
  Nothing below depends on which of several rejections is thrown.
\<close>

fun first_rejection :: "'p response list \<Rightarrow> err option" where
  "first_rejection [] = None"
| "first_rejection (Rejects e # rs) = Some e"
| "first_rejection (Resolves d e # rs) = first_rejection rs"

text \<open>The \<^verbatim>\<open>data\<close> of a resolved request; a rejected one has none.\<close>

fun fetched :: "'p response \<Rightarrow> 'p entity list option" where
  "fetched (Rejects e) = None"
| "fetched (Resolves d e) = d"

text \<open>
  The steps of the \<^verbatim>\<open>try\<close> block after the four results have arrived:
  \<^verbatim>\<open>if (r.data) { store.save(mergeData(store.getAll(), r.data)) }\<close> for each collection, then
  the queue replay, then \<^verbatim>\<open>setOffline(false)\<close>; the \<^verbatim>\<open>catch\<close> block sets the flag and
  throws the error again.
\<close>

definition merge_fetched :: "date_parser \<Rightarrow> 'p response \<Rightarrow> 'p entity list \<Rightarrow> 'p entity list" where
  "merge_fetched parse r stored =
     (case fetched r of None \<Rightarrow> stored | Some d \<Rightarrow> mergeData parse stored d)"

definition fullSync :: "env \<Rightarrow> date_parser \<Rightarrow> 'p gateway \<Rightarrow> 'p state \<Rightarrow> completion \<times> 'p state" where
  "fullSync e parse gw s =
     (if \<not> isSupabaseConfigured e then (Returned, s)
      else
        let (medicinesResult, s1) = request gw (Select ''medicines'') s;
            (salesResult, s2) = request gw (Select ''sales'') s1;
            (refundsResult, s3) = request gw (Select ''refunds'') s2;
            (expensesResult, s4) = request gw (Select ''expenses'') s3
        in case first_rejection [medicinesResult, salesResult, refundsResult, expensesResult] of
             Some err \<Rightarrow> (Threw err, offlineStorage_setOffline True s4)
           | None \<Rightarrow>
               (let s5 = s4\<lparr>medicines := merge_fetched parse medicinesResult (medicines s4)\<rparr>;
                    s6 = s5\<lparr>sales := merge_fetched parse salesResult (sales s5)\<rparr>;
                    s7 = s6\<lparr>refunds := merge_fetched parse refundsResult (refunds s6)\<rparr>;
                    s8 = s7\<lparr>expenses := merge_fetched parse expensesResult (expenses s7)\<rparr>
                in (case processQueue e gw s8 of
                      (Returned, s9) \<Rightarrow> (Returned, offlineStorage_setOffline False s9)
                    | (Threw err, s9) \<Rightarrow> (Threw err, offlineStorage_setOffline True s9))))"

subsection \<open>The audit log\<close>

datatype entity_type = Medicine | Sale | Refund | Expense

record AuditLog =
  log_id :: string
  userId :: string
  username :: string
  log_action :: string
  entityType :: entity_type
  entityId :: string
  details :: string
  timestamp :: string

text \<open>
  What \<^verbatim>\<open>localStorage\<close> holds under the key of the audit log: nothing, a text that
  \<^verbatim>\<open>JSON.parse\<close> rejects, or the text of an array of entries.
\<close>

datatype audit_store = Absent | Corrupt | Logs "AuditLog list"

fun auditLog_getAll :: "audit_store \<Rightarrow> AuditLog list" where
  "auditLog_getAll Absent = []"
| "auditLog_getAll Corrupt = []"
| "auditLog_getAll (Logs ls) = ls"

text \<open>
  \<^verbatim>\<open>logs.splice(0, n)\<close> removes the first \<open>n\<close> entries. \<^verbatim>\<open>localStorage.setItem\<close> throws when
  the browser refuses the value (the quota); \<open>accepts\<close> tells which values it stores. When
  it throws, the \<^verbatim>\<open>catch\<close> logs the failure and the stored value stays as it was.
\<close>

definition auditLog_add :: "(AuditLog list \<Rightarrow> bool) \<Rightarrow> AuditLog \<Rightarrow> audit_store \<Rightarrow> audit_store" where
  "auditLog_add accepts log st =
     (let logs = auditLog_getAll st @ [log];
          logs' = (if length logs > 1000 then drop (length logs - 1000) logs else logs)
      in if accepts logs' then Logs logs' else st)"

definition auditLog_clear :: "audit_store \<Rightarrow> audit_store" where
  "auditLog_clear st = Absent"

subsection \<open>Notions used in the statements and proofs\<close>

text \<open>Every entry of the map is stored under the id of its record.\<close>

definition keyed :: "(string, 'p entity) js_map \<Rightarrow> bool" where
  "keyed m = (\<forall>(k, v) \<in> set m. ent_id v = k)"

text \<open>The test under which a local item replaces the entry found for its id.\<close>

definition beats :: "date_parser \<Rightarrow> 'p entity \<Rightarrow> 'p entity \<Rightarrow> bool" where
  "beats parse item remoteItem =
     (truthy (updatedAt item) \<and> truthy (updatedAt remoteItem) \<and>
      date_gt parse (the (updatedAt item)) (the (updatedAt remoteItem)))"

text \<open>
  One map refines another when it has the same keys in the same order and each of its
  entries is the other's entry or beats it.
\<close>

definition refines :: "date_parser \<Rightarrow> (string, 'p entity) js_map \<Rightarrow> (string, 'p entity) js_map \<Rightarrow> bool" where
  "refines parse seed m =
     list_all2 (\<lambda>p q. fst q = fst p \<and> (snd q = snd p \<or> beats parse (snd q) (snd p))) seed m"

text \<open>
  The remote operation that corresponds to a queued action, in the words of the
  specification: an insert of the data for \<^verbatim>\<open>create\<close>, an update by the id of the data
  for \<^verbatim>\<open>update\<close>, a delete by that id for \<^verbatim>\<open>delete\<close>, on the collection named by the
  type of the action; no operation for any other action.
\<close>

definition remote_op :: "'p QueuedAction \<Rightarrow> 'p remote_call option" where
  "remote_op a =
     (if qa_action a = ''create'' then Some (Insert (table_of (qa_type a)) (qa_data a))
      else if qa_action a = ''update'' then
        Some (Update (table_of (qa_type a)) (qa_data a) (ent_id (qa_data a)))
      else if qa_action a = ''delete'' then
        Some (Delete (table_of (qa_type a)) (ent_id (qa_data a)))
      else None)"

text \<open>The four fetches of a full synchronisation, and the answers the gateway gives them.\<close>

definition select_requests :: "'p remote_call list" where
  "select_requests = [Select ''medicines'', Select ''sales'', Select ''refunds'', Select ''expenses'']"

definition fetch_results :: "'p gateway \<Rightarrow> 'p state \<Rightarrow> 'p response list" where
  "fetch_results gw s =
     [gw (requests s) (Select ''medicines''),
      gw (requests s @ [Select ''medicines'']) (Select ''sales''),
      gw (requests s @ [Select ''medicines'', Select ''sales'']) (Select ''refunds''),
      gw (requests s @ [Select ''medicines'', Select ''sales'', Select ''refunds''])
         (Select ''expenses'')]"

subsection \<open>A worked scenario\<close>

text \<open>
  The scenario of the specification, extended: the medicine \<open>m1\<close> is newer locally,
  \<open>m2\<close> is known locally only, \<open>m3\<close> remotely only, the local \<open>m4\<close> has no
  \<^verbatim>\<open>updatedAt\<close>, and both copies of \<open>m5\<close> carry the same timestamp. The parser knows the
  two timestamps that occur.
\<close>

definition ex_parse :: date_parser where
  "ex_parse s =
     (if s = ''2024-01-01T00:00:00Z'' then Some 1704067200000
      else if s = ''2024-01-02T00:00:00Z'' then Some 1704153600000
      else None)"

definition ex_m1_local :: "string entity" where
  "ex_m1_local = \<lparr>ent_id = ''m1'', updatedAt = Some ''2024-01-02T00:00:00Z'',
     createdAt = ''2024-01-01T00:00:00Z'', payload = ''local copy''\<rparr>"

definition ex_m1_remote :: "string entity" where
  "ex_m1_remote = \<lparr>ent_id = ''m1'', updatedAt = Some ''2024-01-01T00:00:00Z'',
     createdAt = ''2024-01-01T00:00:00Z'', payload = ''remote copy''\<rparr>"

definition ex_m2_local :: "string entity" where
  "ex_m2_local = \<lparr>ent_id = ''m2'', updatedAt = None,
     createdAt = ''2024-01-01T00:00:00Z'', payload = ''local only''\<rparr>"

definition ex_m3_remote :: "string entity" where
  "ex_m3_remote = \<lparr>ent_id = ''m3'', updatedAt = None,
     createdAt = ''2024-01-01T00:00:00Z'', payload = ''remote only''\<rparr>"

definition ex_m4_local :: "string entity" where
  "ex_m4_local = \<lparr>ent_id = ''m4'', updatedAt = None,
     createdAt = ''2024-01-01T00:00:00Z'', payload = ''local copy''\<rparr>"

definition ex_m4_remote :: "string entity" where
  "ex_m4_remote = \<lparr>ent_id = ''m4'', updatedAt = Some ''2024-01-01T00:00:00Z'',
     createdAt = ''2024-01-01T00:00:00Z'', payload = ''remote copy''\<rparr>"

definition ex_m5_local :: "string entity" where
  "ex_m5_local = \<lparr>ent_id = ''m5'', updatedAt = Some ''2024-01-02T00:00:00Z'',
     createdAt = ''2024-01-01T00:00:00Z'', payload = ''local copy''\<rparr>"

definition ex_m5_remote :: "string entity" where
  "ex_m5_remote = \<lparr>ent_id = ''m5'', updatedAt = Some ''2024-01-02T00:00:00Z'',
     createdAt = ''2024-01-01T00:00:00Z'', payload = ''remote copy''\<rparr>"

definition ex_local :: "string entity list" where
  "ex_local = [ex_m1_local, ex_m2_local, ex_m4_local, ex_m5_local]"

definition ex_remote :: "string entity list" where
  "ex_remote = [ex_m1_remote, ex_m3_remote, ex_m4_remote, ex_m5_remote]"

text \<open>
  A device that is offline, with three queued actions: a delete of the sale \<open>s1\<close>, an
  action of the unknown kind \<^verbatim>\<open>archive\<close>, and a create of the medicine \<open>m2\<close>.
\<close>

definition ex_s1 :: "string entity" where
  "ex_s1 = \<lparr>ent_id = ''s1'', updatedAt = None,
     createdAt = ''2024-01-01T00:00:00Z'', payload = ''sale''\<rparr>"

definition ex_delete :: "string QueuedAction" where
  "ex_delete = \<lparr>qa_id = ''q1'', qa_type = ''sale'', qa_action = ''delete'', qa_data = ex_s1,
     qa_createdAt = ''2024-01-03T00:00:00Z''\<rparr>"

definition ex_archive :: "string QueuedAction" where
  "ex_archive = \<lparr>qa_id = ''q2'', qa_type = ''sale'', qa_action = ''archive'', qa_data = ex_s1,
     qa_createdAt = ''2024-01-03T00:00:01Z''\<rparr>"

definition ex_create :: "string QueuedAction" where
  "ex_create = \<lparr>qa_id = ''q3'', qa_type = ''medicine'', qa_action = ''create'',
     qa_data = ex_m2_local, qa_createdAt = ''2024-01-03T00:00:02Z''\<rparr>"

definition ex_state :: "string state" where
  "ex_state = \<lparr>medicines = [ex_m1_local, ex_m2_local], sales = [ex_s1], refunds = [],
     expenses = [], queue = [ex_delete, ex_archive, ex_create], offline = True, requests = []\<rparr>"

definition ex_env :: env where
  "ex_env = \<lparr>VITE_SUPABASE_URL = Some ''https://demo.supabase.co'',
     VITE_SUPABASE_ANON_KEY = Some ''anon-key''\<rparr>"

definition ex_env_unset :: env where
  "ex_env_unset = \<lparr>VITE_SUPABASE_URL = None, VITE_SUPABASE_ANON_KEY = None\<rparr>"

text \<open>
  Remote stores: one whose every request rejects, one whose every request resolves with an
  error and no data, one that answers every request, and two that answer every request
  but the fetch of the sales, which rejects in the first and resolves with an error and no
  data in the second.
\<close>

definition gw_rejects :: "string gateway" where
  "gw_rejects hist c = Rejects ''fetch failed''"

definition gw_errors :: "string gateway" where
  "gw_errors hist c = Resolves None (Some ''network error'')"

definition gw_ok :: "string gateway" where
  "gw_ok hist c =
     (if c = Select ''medicines'' then Resolves (Some [ex_m1_remote, ex_m3_remote]) None
      else Resolves (Some []) None)"

definition gw_sales_rejects :: "string gateway" where
  "gw_sales_rejects hist c = (if c = Select ''sales'' then Rejects ''timeout'' else gw_ok hist c)"

definition gw_sales_errors :: "string gateway" where
  "gw_sales_errors hist c =
     (if c = Select ''sales'' then Resolves None (Some ''timeout'') else gw_ok hist c)"

text \<open>
  Audit log entries that differ in their ids.
\<close>

definition ex_log :: "nat \<Rightarrow> AuditLog" where
  "ex_log n = \<lparr>log_id = replicate n (CHR ''i''), userId = ''u1'', username = ''admin'',
     log_action = ''update'', entityType = Medicine, entityId = ''m1'', details = [],
     timestamp = ''2024-01-01T00:00:00Z''\<rparr>"

section \<open>Properties of the merge\<close>

subsection \<open>The map operations\<close>

lemma map_get_set: "map_get (map_set k v m) k' = (if k' = k then Some v else map_get m k')"
  by (induction m) auto

lemma map_get_None_iff: "map_get m k = None \<longleftrightarrow> k \<notin> fst ` set m"
  by (induction m) force+

lemma map_get_SomeD: "map_get m k = Some v \<Longrightarrow> (k, v) \<in> set m"
  by (induction m) (auto split: if_splits)

lemma keys_map_set:
  "map fst (map_set k v m) = (if k \<in> fst ` set m then map fst m else map fst m @ [k])"
  by (induction m) (force split: if_splits)+

lemma map_set_absent: "k \<notin> fst ` set m \<Longrightarrow> map_set k v m = m @ [(k, v)]"
  by (induction m) auto

lemma set_map_set_subset: "set (map_set k v m) \<subseteq> insert (k, v) (set m)"
  by (induction m) (auto split: if_splits)

lemma dom_map_set: "fst ` set (map_set k v m) = insert k (fst ` set m)"
  using keys_map_set [of k v m, THEN arg_cong, of set]
  by (simp only: set_map) (auto split: if_splits)

lemma map_set_append:
  "map_set k v (m1 @ m2) =
     (case map_get m1 k of None \<Rightarrow> m1 @ map_set k v m2 | Some w \<Rightarrow> map_set k v m1 @ m2)"
  by (induction m1) (auto split: option.splits)

lemma map_get_append:
  "map_get (m1 @ m2) k = (case map_get m1 k of None \<Rightarrow> map_get m2 k | Some v \<Rightarrow> Some v)"
  by (induction m1) auto

subsection \<open>Invariants of the two passes\<close>

lemma keyed_map_set: "keyed m \<Longrightarrow> keyed (map_set (ent_id v) v m)"
  using set_map_set_subset [of "ent_id v" v m] by (auto simp: keyed_def)

lemma distinct_map_set: "distinct (map fst m) \<Longrightarrow> distinct (map fst (map_set k v m))"
  by (simp add: keys_map_set)

lemma keyed_merge_local: "keyed m \<Longrightarrow> keyed (merge_local parse item m)"
  by (simp add: merge_local_def keyed_map_set split: option.splits)

lemma distinct_merge_local:
  "distinct (map fst m) \<Longrightarrow> distinct (map fst (merge_local parse item m))"
  by (simp add: merge_local_def distinct_map_set split: option.splits)

lemma keys_merge_local:
  "map fst (merge_local parse item m) =
     (if ent_id item \<in> fst ` set m then map fst m else map fst m @ [ent_id item])"
  by (auto simp: merge_local_def keys_map_set map_get_None_iff split: option.splits
      dest: map_get_SomeD intro: rev_image_eqI)

lemma dom_merge_local: "fst ` set (merge_local parse item m) = insert (ent_id item) (fst ` set m)"
  using keys_merge_local [of parse item m, THEN arg_cong, of set]
  by (simp only: set_map) (auto split: if_splits)

lemma seed_fold_inv:
  "keyed m \<Longrightarrow> distinct (map fst m) \<Longrightarrow>
   keyed (fold (\<lambda>item merged. map_set (ent_id item) item merged) remote m) \<and>
   distinct (map fst (fold (\<lambda>item merged. map_set (ent_id item) item merged) remote m)) \<and>
   fst ` set (fold (\<lambda>item merged. map_set (ent_id item) item merged) remote m) =
     fst ` set m \<union> ent_id ` set remote"
proof (induction remote arbitrary: m)
  case Nil
  then show ?case by simp
next
  case (Cons r remote)
  from Cons.IH [of "map_set (ent_id r) r m"] Cons.prems show ?case
    by (simp add: keyed_map_set distinct_map_set dom_map_set)
qed

lemma seed_remote_inv:
  "keyed (seed_remote remote)" "distinct (map fst (seed_remote remote))"
  "fst ` set (seed_remote remote) = ent_id ` set remote"
  using seed_fold_inv [of "[]" remote] by (simp_all add: seed_remote_def keyed_def)

lemma merge_fold_inv:
  "keyed m \<Longrightarrow> distinct (map fst m) \<Longrightarrow>
   keyed (fold (merge_local parse) local m) \<and>
   distinct (map fst (fold (merge_local parse) local m)) \<and>
   fst ` set (fold (merge_local parse) local m) = fst ` set m \<union> ent_id ` set local"
proof (induction local arbitrary: m)
  case Nil
  then show ?case by simp
next
  case (Cons l local)
  from Cons.IH [of "merge_local parse l m"] Cons.prems show ?case
    by (simp add: keyed_merge_local distinct_merge_local dom_merge_local)
qed

lemma merge_map_inv:
  "keyed (merge_map parse local remote)" "distinct (map fst (merge_map parse local remote))"
  "fst ` set (merge_map parse local remote) = ent_id ` set local \<union> ent_id ` set remote"
  using merge_fold_inv [of "seed_remote remote" parse local] seed_remote_inv [of remote]
  by (auto simp: merge_map_def)

lemma keyed_ids: "keyed m \<Longrightarrow> map ent_id (map_values m) = map fst m"
  by (induction m) (auto simp: keyed_def map_values_def)

lemma keyed_Cons: "keyed ((k, v) # m) \<longleftrightarrow> ent_id v = k \<and> keyed m"
  by (auto simp: keyed_def)

lemma keyed_append: "keyed (m1 @ m2) \<longleftrightarrow> keyed m1 \<and> keyed m2"
  by (auto simp: keyed_def)

lemma keyed_values_ids: "keyed m \<Longrightarrow> ent_id ` snd ` set m = fst ` set m"
  by (force simp: keyed_def image_iff)

subsection \<open>What the map holds for an id\<close>

lemma merge_local_beats:
  "merge_local parse item m =
     (case map_get m (ent_id item) of
        None \<Rightarrow> map_set (ent_id item) item m
      | Some w \<Rightarrow> if beats parse item w then map_set (ent_id item) item m else m)"
  by (simp add: merge_local_def beats_def split: option.splits)

lemma beats_irrefl: "\<not> beats parse v v"
  by (simp add: beats_def date_gt_def split: option.splits)

lemma beats_trans: "beats parse a b \<Longrightarrow> beats parse b c \<Longrightarrow> beats parse a c"
  by (auto simp: beats_def date_gt_def split: option.splits)

lemma map_get_merge_local_same:
  "map_get (merge_local parse item m) (ent_id item) =
     (case map_get m (ent_id item) of
        None \<Rightarrow> Some item
      | Some w \<Rightarrow> if beats parse item w then Some item else Some w)"
  by (simp add: merge_local_beats map_get_set split: option.splits)

lemma map_get_merge_local_other:
  "k \<noteq> ent_id item \<Longrightarrow> map_get (merge_local parse item m) k = map_get m k"
  by (simp add: merge_local_beats map_get_set split: option.splits)

lemma map_get_fold_merge_other:
  "k \<notin> ent_id ` set items \<Longrightarrow> map_get (fold (merge_local parse) items m) k = map_get m k"
  by (induction items arbitrary: m) (auto simp: map_get_merge_local_other)

lemma map_get_fold_seed_other:
  "k \<notin> ent_id ` set items \<Longrightarrow>
   map_get (fold (\<lambda>item merged. map_set (ent_id item) item merged) items m) k = map_get m k"
  by (induction items arbitrary: m) (auto simp: map_get_set)

lemma map_get_fold_seed_distinct:
  "distinct (map ent_id items) \<Longrightarrow> r \<in> set items \<Longrightarrow>
   map_get (fold (\<lambda>item merged. map_set (ent_id item) item merged) items m) (ent_id r) = Some r"
proof (induction items arbitrary: m)
  case Nil
  then show ?case by simp
next
  case (Cons x xs)
  show ?case
  proof (cases "x = r")
    case True
    with Cons.prems have "ent_id r \<notin> ent_id ` set xs" by simp
    then show ?thesis using True by (simp add: map_get_fold_seed_other map_get_set)
  next
    case False
    with Cons show ?thesis by simp
  qed
qed

lemma map_get_seed_remote:
  "distinct (map ent_id remote) \<Longrightarrow> r \<in> set remote \<Longrightarrow>
   map_get (seed_remote remote) (ent_id r) = Some r"
  by (simp add: seed_remote_def map_get_fold_seed_distinct)

lemma map_get_fold_merge_distinct:
  "distinct (map ent_id items) \<Longrightarrow> l \<in> set items \<Longrightarrow>
   map_get (fold (merge_local parse) items m) (ent_id l) =
     (case map_get m (ent_id l) of
        None \<Rightarrow> Some l
      | Some w \<Rightarrow> if beats parse l w then Some l else Some w)"
proof (induction items arbitrary: m)
  case Nil
  then show ?case by simp
next
  case (Cons x xs)
  show ?case
  proof (cases "x = l")
    case True
    with Cons.prems have "ent_id l \<notin> ent_id ` set xs" by simp
    then show ?thesis
      using True by (simp add: map_get_fold_merge_other map_get_merge_local_same)
  next
    case False
    with Cons.prems have "l \<in> set xs" "ent_id l \<noteq> ent_id x" "distinct (map ent_id xs)"
      by (auto simp: image_iff)
    with Cons.IH [of "merge_local parse x m"] show ?thesis
      by (simp add: map_get_merge_local_other)
  qed
qed

lemma filter_values:
  "keyed m \<Longrightarrow> distinct (map fst m) \<Longrightarrow> map_get m k = Some v \<Longrightarrow>
   filter (\<lambda>x. ent_id x = k) (map_values m) = [v]"
proof (induction m)
  case Nil
  then show ?case by simp
next
  case (Cons p m)
  obtain k' v' where p: "p = (k', v')" by (cases p)
  from Cons.prems p have km: "keyed m" and id: "ent_id v' = k'"
    by (auto simp: keyed_def)
  show ?case
  proof (cases "k' = k")
    case True
    with Cons.prems p have "k \<notin> fst ` set m" and v: "v' = v" by auto
    with km have "filter (\<lambda>x. ent_id x = k) (map_values m) = []"
      by (auto simp: keyed_def map_values_def filter_empty_conv intro: rev_image_eqI)
    with True id v p show ?thesis by (simp add: map_values_def)
  next
    case False
    with Cons p km id show ?thesis by (simp add: map_values_def)
  qed
qed

subsection \<open>Examples\<close>

lemmas ex_defs = ex_parse_def ex_m1_local_def ex_m1_remote_def ex_m2_local_def ex_m3_remote_def
  ex_m4_local_def ex_m4_remote_def ex_m5_local_def ex_m5_remote_def ex_local_def ex_remote_def
  ex_s1_def ex_delete_def ex_archive_def ex_create_def ex_state_def ex_env_def ex_env_unset_def

lemma ex_env_configured: "isSupabaseConfigured ex_env"
  by (simp add: isSupabaseConfigured_def ex_env_def)

lemma ex_env_unset_not_configured: "\<not> isSupabaseConfigured ex_env_unset"
  by (simp add: isSupabaseConfigured_def ex_env_unset_def)

subsection \<open>Ids of the output\<close>

text \<open>
  C5. Whatever the two inputs are, no two records of the output of \<open>mergeData\<close> share an
  id, and the ids of the output are those of the local input together with those of the
  remote input.
\<close>

theorem mergeData_ids_unique_union:
  "distinct (map ent_id (mergeData parse local remote)) \<and>
   ent_id ` set (mergeData parse local remote) = ent_id ` set local \<union> ent_id ` set remote"
proof -
  have "map ent_id (mergeData parse local remote) = map fst (merge_map parse local remote)"
    by (simp add: mergeData_def keyed_ids merge_map_inv(1))
  then show ?thesis
    using merge_map_inv(2,3) [of parse local remote]
    by (metis image_set)
qed

subsection \<open>Records on one side only\<close>

text \<open>
  C7. A record whose id occurs in one input only survives the merge as it is: it is the
  one record of the output with that id. The ids within that input are distinct, as the
  data model has them, so that the input has one record for the id.
\<close>

theorem mergeData_single_sided:
  "(distinct (map ent_id local) \<and> l \<in> set local \<and> ent_id l \<notin> ent_id ` set remote
      \<longrightarrow> filter (\<lambda>x. ent_id x = ent_id l) (mergeData parse local remote) = [l]) \<and>
   (distinct (map ent_id remote) \<and> r \<in> set remote \<and> ent_id r \<notin> ent_id ` set local
      \<longrightarrow> filter (\<lambda>x. ent_id x = ent_id r) (mergeData parse local remote) = [r])"
proof (intro conjI impI)
  assume a: "distinct (map ent_id local) \<and> l \<in> set local \<and> ent_id l \<notin> ent_id ` set remote"
  then have "map_get (seed_remote remote) (ent_id l) = None"
    by (simp add: map_get_None_iff seed_remote_inv(3))
  with a have "map_get (merge_map parse local remote) (ent_id l) = Some l"
    by (simp add: merge_map_def map_get_fold_merge_distinct)
  then show "filter (\<lambda>x. ent_id x = ent_id l) (mergeData parse local remote) = [l]"
    by (simp add: mergeData_def filter_values merge_map_inv(1,2))
next
  assume a: "distinct (map ent_id remote) \<and> r \<in> set remote \<and> ent_id r \<notin> ent_id ` set local"
  then have "map_get (merge_map parse local remote) (ent_id r) = Some r"
    by (simp add: merge_map_def map_get_fold_merge_other map_get_seed_remote)
  then show "filter (\<lambda>x. ent_id x = ent_id r) (mergeData parse local remote) = [r]"
    by (simp add: mergeData_def filter_values merge_map_inv(1,2))
qed

text \<open>
  In the scenario \<open>m2\<close> is local only and \<open>m3\<close> is remote only.
\<close>

theorem mergeData_single_sided_witness:
  "filter (\<lambda>x. ent_id x = ''m2'') (mergeData ex_parse ex_local ex_remote) = [ex_m2_local] \<and>
   filter (\<lambda>x. ent_id x = ''m3'') (mergeData ex_parse ex_local ex_remote) = [ex_m3_remote]"
  using mergeData_single_sided [of ex_local ex_m2_local ex_remote ex_parse ex_m3_remote]
  by (simp add: ex_local_def ex_remote_def ex_m1_local_def ex_m1_remote_def ex_m2_local_def
      ex_m3_remote_def ex_m4_local_def ex_m4_remote_def ex_m5_local_def ex_m5_remote_def)

subsection \<open>Records on both sides\<close>

text \<open>
  C4. For an id that the local record \<open>l\<close> and the remote record \<open>r\<close> share, the ids
  within each input being distinct: when both carry an \<^verbatim>\<open>updatedAt\<close> timestamp, the
  strings \<open>a\<close> and \<open>b\<close>, neither of them empty, the record of the output for that id
  is \<open>l\<close> if the local time is strictly later and \<open>r\<close> otherwise, so a tie keeps
  \<open>r\<close>; when one of the two lacks \<^verbatim>\<open>updatedAt\<close>, by its absence or as the empty
  string, it is \<open>r\<close>.
\<close>

theorem mergeData_conflict:
  assumes "distinct (map ent_id local)" and "distinct (map ent_id remote)"
    and "l \<in> set local" and "r \<in> set remote" and "ent_id l = ent_id r"
  shows "(updatedAt l = Some a \<and> a \<noteq> [] \<and> updatedAt r = Some b \<and> b \<noteq> []
            \<longrightarrow> filter (\<lambda>x. ent_id x = ent_id r) (mergeData parse local remote)
                  = [if date_gt parse a b then l else r]) \<and>
         (\<not> truthy (updatedAt l) \<or> \<not> truthy (updatedAt r)
            \<longrightarrow> filter (\<lambda>x. ent_id x = ent_id r) (mergeData parse local remote) = [r])"
proof -
  from assms have "map_get (seed_remote remote) (ent_id l) = Some r"
    by (simp add: map_get_seed_remote)
  then have "map_get (merge_map parse local remote) (ent_id l) =
      Some (if beats parse l r then l else r)"
    using map_get_fold_merge_distinct [OF assms(1) assms(3), of parse "seed_remote remote"]
    by (simp add: merge_map_def)
  then have m: "map_get (merge_map parse local remote) (ent_id r) =
      Some (if beats parse l r then l else r)"
    by (simp only: assms(5))
  have f: "filter (\<lambda>x. ent_id x = ent_id r) (mergeData parse local remote) =
      [if beats parse l r then l else r]"
    using m by (simp only: mergeData_def filter_values merge_map_inv(1,2))
  show ?thesis
    unfolding f by (auto simp: beats_def)
qed

text \<open>
  In the scenario the local \<open>m1\<close> is later and wins, the tie on \<open>m5\<close> keeps the remote
  record, and so does \<open>m4\<close>, whose local record has no \<^verbatim>\<open>updatedAt\<close>.
\<close>

theorem mergeData_conflict_witness:
  "filter (\<lambda>x. ent_id x = ''m1'') (mergeData ex_parse ex_local ex_remote) = [ex_m1_local] \<and>
   filter (\<lambda>x. ent_id x = ''m5'') (mergeData ex_parse ex_local ex_remote) = [ex_m5_remote] \<and>
   filter (\<lambda>x. ent_id x = ''m4'') (mergeData ex_parse ex_local ex_remote) = [ex_m4_remote]"
proof -
  have d: "distinct (map ent_id ex_local)" "distinct (map ent_id ex_remote)"
    by (simp_all add: ex_defs)
  have m: "ex_m1_local \<in> set ex_local" "ex_m1_remote \<in> set ex_remote"
    "ex_m4_local \<in> set ex_local" "ex_m4_remote \<in> set ex_remote"
    "ex_m5_local \<in> set ex_local" "ex_m5_remote \<in> set ex_remote"
    by (simp_all add: ex_local_def ex_remote_def)
  have i: "ent_id ex_m1_local = ent_id ex_m1_remote" "ent_id ex_m4_local = ent_id ex_m4_remote"
    "ent_id ex_m5_local = ent_id ex_m5_remote"
    by (simp_all add: ex_defs)
  show ?thesis
    using mergeData_conflict [OF d m(1,2) i(1), of "''2024-01-02T00:00:00Z''"
        "''2024-01-01T00:00:00Z''" ex_parse]
      mergeData_conflict [OF d m(5,6) i(3), of "''2024-01-02T00:00:00Z''"
        "''2024-01-02T00:00:00Z''" ex_parse]
      mergeData_conflict [OF d m(3,4) i(2), of "[]" "[]" ex_parse]
    by (simp add: ex_m1_local_def ex_m1_remote_def ex_m4_local_def ex_m4_remote_def
        ex_m5_local_def ex_m5_remote_def ex_parse_def date_gt_def)
qed

subsection \<open>Merging twice\<close>

lemma refines_refl: "refines parse m m"
  by (simp add: refines_def list_all2_refl)

lemma refines_map_set:
  "refines parse seed m1 \<Longrightarrow> map_get m1 k = Some w \<Longrightarrow> beats parse item w \<Longrightarrow>
   refines parse seed (map_set k item m1)"
  unfolding refines_def
proof (induction seed m1 rule: list_all2_induct)
  case Nil
  then show ?case by simp
next
  case (Cons p seed q m1)
  then show ?case
    by (cases p; cases q) (auto dest: beats_trans)
qed

lemma refines_merge_local:
  assumes "refines parse seed m1"
  shows "\<exists>m1' m2'. merge_local parse item (m1 @ m2) = m1' @ m2' \<and> refines parse seed m1'"
proof (cases "map_get m1 (ent_id item)")
  case None
  then have "merge_local parse item (m1 @ m2) = m1 @ merge_local parse item m2"
    by (simp add: merge_local_beats map_get_append map_set_append split: option.splits)
  with assms show ?thesis by blast
next
  case (Some w)
  then have eq: "merge_local parse item (m1 @ m2) =
      (if beats parse item w then map_set (ent_id item) item m1 else m1) @ m2"
    by (simp add: merge_local_beats map_get_append map_set_append)
  have "refines parse seed (if beats parse item w then map_set (ent_id item) item m1 else m1)"
    using assms Some by (simp add: refines_map_set)
  with eq show ?thesis by blast
qed

lemma refines_fold:
  "refines parse seed m1 \<Longrightarrow>
   \<exists>m1' m2'. fold (merge_local parse) items (m1 @ m2) = m1' @ m2' \<and> refines parse seed m1'"
proof (induction items arbitrary: m1 m2)
  case Nil
  then show ?case by auto
next
  case (Cons x xs)
  from refines_merge_local [OF Cons.prems, of x m2]
  obtain a b where "merge_local parse x (m1 @ m2) = a @ b" and "refines parse seed a"
    by blast
  with Cons.IH [of a b] show ?case by simp
qed

lemma merge_local_head:
  "ent_id item \<noteq> k \<Longrightarrow> merge_local parse item ((k, v) # m) = (k, v) # merge_local parse item m"
  by (simp add: merge_local_beats split: option.splits)

lemma fold_merge_head:
  "k \<notin> ent_id ` set items \<Longrightarrow>
   fold (merge_local parse) items ((k, v) # m) = (k, v) # fold (merge_local parse) items m"
  by (induction items arbitrary: m) (auto simp: merge_local_head)

lemma replay_refined:
  "refines parse seed m1 \<Longrightarrow> keyed m1 \<Longrightarrow> distinct (map fst m1) \<Longrightarrow>
   fold (merge_local parse) (map snd m1) seed = m1"
  unfolding refines_def
proof (induction seed m1 rule: list_all2_induct)
  case Nil
  then show ?case by simp
next
  case (Cons p seed q m1)
  obtain k r where p: "p = (k, r)" by (cases p)
  obtain k' w where q: "q = (k', w)" by (cases q)
  from Cons.hyps(1) p q have k: "k' = k" and w: "w = r \<or> beats parse w r" by auto
  from Cons.prems q k have id: "ent_id w = k" and km: "keyed m1"
    and nk: "k \<notin> fst ` set m1" and d: "distinct (map fst m1)"
    by (auto simp: keyed_Cons)
  have step: "merge_local parse w ((k, r) # seed) = (k, w) # seed"
    using w id by (auto simp: merge_local_beats beats_irrefl)
  have "k \<notin> ent_id ` set (map snd m1)"
    using nk km by (simp add: keyed_values_ids)
  then have "fold (merge_local parse) (map snd m1) ((k, w) # seed) =
      (k, w) # fold (merge_local parse) (map snd m1) seed"
    by (rule fold_merge_head)
  with step Cons.IH [OF km d] p q k show ?case by simp
qed

lemma replay_extra:
  "keyed m2 \<Longrightarrow> distinct (map fst (m1 @ m2)) \<Longrightarrow>
   fold (merge_local parse) (map snd m2) m1 = m1 @ m2"
proof (induction m2 arbitrary: m1)
  case Nil
  then show ?case by simp
next
  case (Cons q m2)
  obtain k v where q: "q = (k, v)" by (cases q)
  from Cons.prems q have id: "ent_id v = k" and km: "keyed m2" and nk: "k \<notin> fst ` set m1"
    by (auto simp: keyed_Cons)
  from nk id have "merge_local parse v m1 = m1 @ [(k, v)]"
    using map_get_None_iff [of m1 k] by (simp add: merge_local_beats map_set_absent)
  moreover from Cons.prems q have "distinct (map fst ((m1 @ [(k, v)]) @ m2))" by auto
  ultimately show ?case
    using Cons.IH [OF km, of "m1 @ [(k, v)]"] q by simp
qed

text \<open>
  C6. Merging the result of a merge with the same remote input again returns that result:
  the same records in the same order.
\<close>

theorem mergeData_idempotent:
  "mergeData parse (mergeData parse local remote) remote = mergeData parse local remote"
proof -
  obtain m1 m2 where m: "merge_map parse local remote = m1 @ m2"
    and r: "refines parse (seed_remote remote) m1"
    using refines_fold [of parse "seed_remote remote" "seed_remote remote" local "[]", OF refines_refl]
    by (auto simp: merge_map_def)
  have k: "keyed m1" "keyed m2" and d: "distinct (map fst (m1 @ m2))" "distinct (map fst m1)"
    using merge_map_inv(1,2) [of parse local remote] by (auto simp: m keyed_append)
  have "merge_map parse (map snd (m1 @ m2)) remote = m1 @ m2"
    unfolding merge_map_def
    by (simp add: replay_refined [OF r k(1) d(2)] replay_extra [OF k(2) d(1)])
  then have "merge_map parse (map_values (merge_map parse local remote)) remote =
      merge_map parse local remote"
    by (simp add: map_values_def m)
  then show ?thesis by (simp add: mergeData_def)
qed

section \<open>Properties of the queue replay\<close>

lemma processQueuedAction_remote_op:
  "processQueuedAction gw a s =
     (case remote_op a of None \<Rightarrow> (Returned, s) | Some c \<Rightarrow> await_only (request gw c s))"
  by (simp add: processQueuedAction_def remote_op_def Let_def)

lemma await_only_request:
  "snd (await_only (request gw c s)) = s\<lparr>requests := requests s @ [c]\<rparr>"
  by (cases "gw (requests s) c") (simp_all add: request_def)

lemma processQueuedAction_state:
  "snd (processQueuedAction gw a s) =
     s\<lparr>requests := requests s @ (case remote_op a of None \<Rightarrow> [] | Some c \<Rightarrow> [c])\<rparr>"
  by (simp add: processQueuedAction_remote_op await_only_request split: option.splits)

lemma replay_requests:
  "requests (replay gw as s) = requests s @ List.map_filter remote_op as"
proof (induction as arbitrary: s)
  case Nil
  then show ?case by simp
next
  case (Cons a as)
  obtain c s' where p: "processQueuedAction gw a s = (c, s')"
    by (cases "processQueuedAction gw a s")
  then have s': "s' = s\<lparr>requests := requests s @ (case remote_op a of None \<Rightarrow> [] | Some c \<Rightarrow> [c])\<rparr>"
    using processQueuedAction_state [of gw a s] by simp
  show ?case
    by (cases c) (simp_all add: p s' Cons.IH queueStorage_remove_def
        split: option.splits)
qed

lemma replay_frame:
  "medicines (replay gw as s) = medicines s \<and> sales (replay gw as s) = sales s \<and>
   refunds (replay gw as s) = refunds s \<and> expenses (replay gw as s) = expenses s \<and>
   offline (replay gw as s) = offline s"
proof (induction as arbitrary: s)
  case Nil
  then show ?case by simp
next
  case (Cons a as)
  obtain c s' where p: "processQueuedAction gw a s = (c, s')"
    by (cases "processQueuedAction gw a s")
  then have s': "s' = s\<lparr>requests := requests s @ (case remote_op a of None \<Rightarrow> [] | Some c \<Rightarrow> [c])\<rparr>"
    using processQueuedAction_state [of gw a s] by simp
  show ?case
    by (cases c) (simp_all add: p s' Cons.IH queueStorage_remove_def)
qed

lemma replay_queue_subset: "set (queue (replay gw as s)) \<subseteq> set (queue s)"
proof (induction as arbitrary: s)
  case Nil
  then show ?case by simp
next
  case (Cons a as)
  obtain c s' where p: "processQueuedAction gw a s = (c, s')"
    by (cases "processQueuedAction gw a s")
  then have s': "s' = s\<lparr>requests := requests s @ (case remote_op a of None \<Rightarrow> [] | Some c \<Rightarrow> [c])\<rparr>"
    using processQueuedAction_state [of gw a s] by simp
  show ?case
  proof (cases c)
    case Returned
    with Cons.IH [of "queueStorage_remove (qa_id a) s'"] show ?thesis
      by (auto simp: p s' queueStorage_remove_def)
  next
    case (Threw x)
    with Cons.IH [of s'] show ?thesis by (auto simp: p s')
  qed
qed

lemma replay_removes_noop:
  "a \<in> set as \<Longrightarrow> remote_op a = None \<Longrightarrow> a \<notin> set (queue (replay gw as s))"
proof (induction as arbitrary: s)
  case Nil
  then show ?case by simp
next
  case (Cons b as)
  obtain c s' where p: "processQueuedAction gw b s = (c, s')"
    by (cases "processQueuedAction gw b s")
  then have s': "s' = s\<lparr>requests := requests s @ (case remote_op b of None \<Rightarrow> [] | Some c \<Rightarrow> [c])\<rparr>"
    using processQueuedAction_state [of gw b s] by simp
  show ?case
  proof (cases "b = a")
    case True
    with Cons.prems p have c: "c = Returned" and "s' = s"
      by (simp_all add: processQueuedAction_remote_op)
    have "a \<notin> set (queue (queueStorage_remove (qa_id a) s))"
      by (simp add: queueStorage_remove_def)
    with replay_queue_subset [of gw as "queueStorage_remove (qa_id a) s"]
    show ?thesis using True p c \<open>s' = s\<close> by auto
  next
    case False
    with Cons.prems have "a \<in> set as" by simp
    from Cons.IH [OF this Cons.prems(2)] show ?thesis
      by (cases c) (simp_all add: p)
  qed
qed

text \<open>
  C3. A replay pass sends the remote operations of the queued actions one after the other
  in the order of the queue, whatever the remote store answers: after the pass the log of
  requests is the log before it followed by the operation of every queued action that has
  one. A request that fails, by rejecting or by resolving with an error, does not keep the
  later ones from being sent.
\<close>

theorem processQueue_attempts_all_in_order:
  "isSupabaseConfigured e \<Longrightarrow>
   requests (snd (processQueue e gw s)) = requests s @ List.map_filter remote_op (queue s)"
proof -
  assume "isSupabaseConfigured e"
  then have "processQueue e gw s = (Returned, replay gw (queue s) s)"
    by (simp add: processQueue_def queueStorage_getAll_def)
  then show ?thesis
    by (simp add: replay_requests)
qed

text \<open>
  Against the store that rejects every request, the delete and the create of the scenario
  are both sent, in that order.
\<close>

theorem processQueue_attempts_all_in_order_witness:
  "requests (snd (processQueue ex_env gw_rejects ex_state)) =
     [Delete ''sales'' ''s1'', Insert ''medicines'' ex_m2_local]"
  using processQueue_attempts_all_in_order [OF ex_env_configured, of gw_rejects ex_state]
  by (simp add: ex_state_def ex_delete_def ex_archive_def ex_create_def ex_s1_def
      remote_op_def table_of_def)

text \<open>
  C10. For a queued action whose \<^verbatim>\<open>action\<close> is none of \<^verbatim>\<open>create\<close>, \<^verbatim>\<open>update\<close> and
  \<^verbatim>\<open>delete\<close>, \<open>processQueuedAction\<close> returns without sending a request and without
  changing anything, and a replay pass over a queue that holds the action leaves a queue
  that no longer holds it.
\<close>

theorem unknown_action_dropped_without_request:
  assumes "qa_action a \<noteq> ''create''" and "qa_action a \<noteq> ''update''"
    and "qa_action a \<noteq> ''delete''"
  shows "processQueuedAction gw a s = (Returned, s) \<and>
         (isSupabaseConfigured e \<and> a \<in> set (queue s)
            \<longrightarrow> a \<notin> set (queue (snd (processQueue e gw s))))"
proof -
  from assms have n: "remote_op a = None" by (simp add: remote_op_def)
  then show ?thesis
    by (simp add: processQueuedAction_remote_op processQueue_def queueStorage_getAll_def
        replay_removes_noop)
qed

text \<open>
  The \<^verbatim>\<open>archive\<close> action of the scenario, against the store that rejects every request.
\<close>

theorem unknown_action_dropped_without_request_witness:
  "processQueuedAction gw_rejects ex_archive ex_state = (Returned, ex_state) \<and>
   ex_archive \<notin> set (queue (snd (processQueue ex_env gw_rejects ex_state)))"
proof -
  have "ex_archive \<in> set (queue ex_state)" by (simp add: ex_state_def)
  then show ?thesis
    using unknown_action_dropped_without_request [of ex_archive gw_rejects ex_state ex_env]
      ex_env_configured
    by (simp add: ex_archive_def)
qed

text \<open>
  A request that rejects keeps its action in the queue: the example of the specification,
  in which the remote delete throws.
\<close>

lemma processQueue_keeps_action_after_rejection:
  "processQueue ex_env gw_rejects (ex_state\<lparr>queue := [ex_delete]\<rparr>) =
     (Returned, ex_state\<lparr>queue := [ex_delete], requests := [Delete ''sales'' ''s1'']\<rparr>)"
  by (simp add: processQueue_def ex_env_configured queueStorage_getAll_def
      processQueuedAction_def request_def gw_rejects_def Let_def
      ex_state_def ex_delete_def ex_s1_def table_of_def)

text \<open>
  C2. The specification has a replay pass remove a queued action if and only if its remote
  operation succeeds. \<open>processQueuedAction\<close> awaits the request and never looks at the
  \<^verbatim>\<open>error\<close> of the resolved object, unlike the four upserts, which throw it. Here the remote
  delete resolves with an error and no data, and the pass removes the action from the
  queue all the same.
\<close>

theorem processQueue_drops_action_after_error_result:
  "gw_errors [] (Delete ''sales'' ''s1'') = Resolves None (Some ''network error'') \<and>
   processQueue ex_env gw_errors (ex_state\<lparr>queue := [ex_delete]\<rparr>) =
     (Returned, ex_state\<lparr>queue := [], requests := [Delete ''sales'' ''s1'']\<rparr>)"
  by (simp add: processQueue_def ex_env_configured queueStorage_getAll_def
      queueStorage_remove_def processQueuedAction_def request_def gw_errors_def Let_def
      ex_state_def ex_delete_def ex_s1_def table_of_def)

section \<open>Properties of the full synchronisation\<close>

lemma first_rejection_Some: "first_rejection rs = Some err \<Longrightarrow> Rejects err \<in> set rs"
  by (induction rs rule: first_rejection.induct) auto

lemma first_rejection_None: "first_rejection rs = None \<longleftrightarrow> (\<forall>err. Rejects err \<notin> set rs)"
  by (induction rs rule: first_rejection.induct) auto

lemma fullSync_unfold:
  "isSupabaseConfigured e \<Longrightarrow>
   fullSync e parse gw s =
     (case first_rejection (fetch_results gw s) of
        Some err \<Rightarrow> (Threw err, s\<lparr>requests := requests s @ select_requests, offline := True\<rparr>)
      | None \<Rightarrow>
          (Returned,
           (replay gw (queue s)
             (s\<lparr>requests := requests s @ select_requests,
                medicines := merge_fetched parse (fetch_results gw s ! 0) (medicines s),
                sales := merge_fetched parse (fetch_results gw s ! 1) (sales s),
                refunds := merge_fetched parse (fetch_results gw s ! 2) (refunds s),
                expenses := merge_fetched parse (fetch_results gw s ! 3) (expenses s)\<rparr>))\<lparr>offline := False\<rparr>))"
  by (simp add: fullSync_def request_def fetch_results_def select_requests_def Let_def
      offlineStorage_setOffline_def processQueue_def queueStorage_getAll_def
      split: option.splits)

lemma ex_fetch_results:
  "fetch_results gw_sales_rejects ex_state =
     [Resolves (Some [ex_m1_remote, ex_m3_remote]) None, Rejects ''timeout'',
      Resolves (Some []) None, Resolves (Some []) None]"
  "fetch_results gw_sales_errors ex_state =
     [Resolves (Some [ex_m1_remote, ex_m3_remote]) None, Resolves None (Some ''timeout''),
      Resolves (Some []) None, Resolves (Some []) None]"
  "fetch_results gw_ok ex_state =
     [Resolves (Some [ex_m1_remote, ex_m3_remote]) None, Resolves (Some []) None,
      Resolves (Some []) None, Resolves (Some []) None]"
  by (simp_all add: fetch_results_def gw_sales_rejects_def gw_sales_errors_def gw_ok_def)

lemma ex_merge_medicines:
  "mergeData ex_parse [ex_m1_local, ex_m2_local] [ex_m1_remote, ex_m3_remote] =
     [ex_m1_local, ex_m3_remote, ex_m2_local]"
  by (simp add: mergeData_def merge_map_def seed_remote_def merge_local_def map_values_def
      date_gt_def ex_parse_def ex_m1_local_def ex_m1_remote_def ex_m2_local_def ex_m3_remote_def)

text \<open>
  What a full synchronisation does with the remote store configured, case by case. If one
  of the four fetches rejects, \<open>fullSync\<close> throws the error of a rejected fetch, no
  collection and no queue entry has changed, and the connectivity flag says offline. If
  none rejects, the \<^verbatim>\<open>if (r.data)\<close> tests decide for each collection apart whether it is
  merged and stored. If every fetch resolves with data and no error, \<open>fullSync\<close> returns
  and the flag says online.
\<close>

lemma fullSync_cases:
  assumes "isSupabaseConfigured e"
  shows "((\<exists>err. Rejects err \<in> set (fetch_results gw s)) \<longrightarrow>
            (\<exists>err. Rejects err \<in> set (fetch_results gw s) \<and>
               fullSync e parse gw s =
                 (Threw err, s\<lparr>requests := requests s @ select_requests, offline := True\<rparr>))) \<and>
         ((\<forall>err. Rejects err \<notin> set (fetch_results gw s)) \<longrightarrow>
            medicines (snd (fullSync e parse gw s)) =
              (case fetched (fetch_results gw s ! 0) of
                 None \<Rightarrow> medicines s | Some d \<Rightarrow> mergeData parse (medicines s) d) \<and>
            sales (snd (fullSync e parse gw s)) =
              (case fetched (fetch_results gw s ! 1) of
                 None \<Rightarrow> sales s | Some d \<Rightarrow> mergeData parse (sales s) d) \<and>
            refunds (snd (fullSync e parse gw s)) =
              (case fetched (fetch_results gw s ! 2) of
                 None \<Rightarrow> refunds s | Some d \<Rightarrow> mergeData parse (refunds s) d) \<and>
            expenses (snd (fullSync e parse gw s)) =
              (case fetched (fetch_results gw s ! 3) of
                 None \<Rightarrow> expenses s | Some d \<Rightarrow> mergeData parse (expenses s) d)) \<and>
         ((\<forall>r \<in> set (fetch_results gw s). \<exists>d. r = Resolves (Some d) None) \<longrightarrow>
            fst (fullSync e parse gw s) = Returned \<and> \<not> offline (snd (fullSync e parse gw s)))"
proof (intro conjI impI)
  assume "\<exists>err. Rejects err \<in> set (fetch_results gw s)"
  then obtain err where "first_rejection (fetch_results gw s) = Some err"
    using first_rejection_None [of "fetch_results gw s"] by (cases "first_rejection (fetch_results gw s)") auto
  then show "\<exists>err. Rejects err \<in> set (fetch_results gw s) \<and>
      fullSync e parse gw s =
        (Threw err, s\<lparr>requests := requests s @ select_requests, offline := True\<rparr>)"
    using first_rejection_Some [of "fetch_results gw s" err]
    by (simp add: fullSync_unfold [OF assms])
next
  assume "\<forall>err. Rejects err \<notin> set (fetch_results gw s)"
  then have n: "first_rejection (fetch_results gw s) = None"
    by (simp add: first_rejection_None)
  show "medicines (snd (fullSync e parse gw s)) =
      (case fetched (fetch_results gw s ! 0) of
         None \<Rightarrow> medicines s | Some d \<Rightarrow> mergeData parse (medicines s) d)"
    by (simp add: fullSync_unfold [OF assms] n replay_frame merge_fetched_def)
  show "sales (snd (fullSync e parse gw s)) =
      (case fetched (fetch_results gw s ! 1) of
         None \<Rightarrow> sales s | Some d \<Rightarrow> mergeData parse (sales s) d)"
    by (simp add: fullSync_unfold [OF assms] n replay_frame merge_fetched_def)
  show "refunds (snd (fullSync e parse gw s)) =
      (case fetched (fetch_results gw s ! 2) of
         None \<Rightarrow> refunds s | Some d \<Rightarrow> mergeData parse (refunds s) d)"
    by (simp add: fullSync_unfold [OF assms] n replay_frame merge_fetched_def)
  show "expenses (snd (fullSync e parse gw s)) =
      (case fetched (fetch_results gw s ! 3) of
         None \<Rightarrow> expenses s | Some d \<Rightarrow> mergeData parse (expenses s) d)"
    by (simp add: fullSync_unfold [OF assms] n replay_frame merge_fetched_def)
next
  assume a: "\<forall>r \<in> set (fetch_results gw s). \<exists>d. r = Resolves (Some d) None"
  then have "\<forall>err. Rejects err \<notin> set (fetch_results gw s)" by auto
  then have n: "first_rejection (fetch_results gw s) = None"
    by (simp add: first_rejection_None)
  show "fst (fullSync e parse gw s) = Returned"
    by (simp add: fullSync_unfold [OF assms] n)
  show "\<not> offline (snd (fullSync e parse gw s))"
    by (simp add: fullSync_unfold [OF assms] n)
qed

text \<open>
  The three cases in the scenario: the fetch of the sales rejects; it resolves with an
  error and no data, and the medicines are merged all the same; every fetch succeeds.
\<close>

lemma fullSync_cases_example:
  "fullSync ex_env ex_parse gw_sales_rejects ex_state =
     (Threw ''timeout'', ex_state\<lparr>requests := select_requests, offline := True\<rparr>) \<and>
   medicines (snd (fullSync ex_env ex_parse gw_sales_errors ex_state)) =
     [ex_m1_local, ex_m3_remote, ex_m2_local] \<and>
   sales (snd (fullSync ex_env ex_parse gw_sales_errors ex_state)) = sales ex_state \<and>
   fst (fullSync ex_env ex_parse gw_ok ex_state) = Returned \<and>
   \<not> offline (snd (fullSync ex_env ex_parse gw_ok ex_state))"
proof -
  have s: "medicines ex_state = [ex_m1_local, ex_m2_local]" "requests ex_state = []"
    by (simp_all add: ex_state_def)
  show ?thesis
    using fullSync_cases [OF ex_env_configured, of gw_sales_rejects ex_state ex_parse]
      fullSync_cases [OF ex_env_configured, of gw_sales_errors ex_state ex_parse]
      fullSync_cases [OF ex_env_configured, of gw_ok ex_state ex_parse]
    by (simp add: ex_fetch_results ex_merge_medicines s)
qed

text \<open>
  The upsert of the sales throws when the request resolves with an error.
\<close>

lemma syncSales_throws_on_error_result:
  "syncSales ex_env gw_errors ex_state =
     (Threw ''network error'', ex_state\<lparr>requests := [Upsert ''sales'' [ex_s1]]\<rparr>)"
  by (simp add: syncSales_def ex_env_configured request_def gw_errors_def ex_state_def)

text \<open>
  When every request resolves with an error and no data, as it does without a network,
  \<open>fullSync\<close> merges nothing, returns, and leaves the flag saying online.
\<close>

lemma fullSync_online_after_total_outage:
  "fst (fullSync ex_env ex_parse gw_errors ex_state) = Returned \<and>
   \<not> offline (snd (fullSync ex_env ex_parse gw_errors ex_state))"
proof -
  have "first_rejection (fetch_results gw_errors ex_state) = None"
    by (simp add: fetch_results_def gw_errors_def)
  then show ?thesis
    by (simp add: fullSync_unfold [OF ex_env_configured])
qed

text \<open>
  C1. The specification has \<open>fullSync\<close> abort as a whole when any one of the four fetches
  fails: no collection merged or stored, the error thrown to the caller, the connectivity
  flag set to offline. \<open>fullSync\<close> never looks at the \<^verbatim>\<open>error\<close> of a resolved fetch, unlike
  the four upserts, which throw it, and its \<^verbatim>\<open>catch\<close> block runs only when a request
  rejects. Here the fetch of the sales resolves with an error and no data, and
  \<open>fullSync\<close> returns instead of throwing, the medicines have been merged and stored, and
  the flag has gone from offline to online.
\<close>

theorem fullSync_returns_online_after_failed_fetch:
  "fetch_results gw_sales_errors ex_state ! 1 = Resolves None (Some ''timeout'') \<and>
   fst (fullSync ex_env ex_parse gw_sales_errors ex_state) = Returned \<and>
   medicines ex_state = [ex_m1_local, ex_m2_local] \<and>
   medicines (snd (fullSync ex_env ex_parse gw_sales_errors ex_state)) =
     [ex_m1_local, ex_m3_remote, ex_m2_local] \<and>
   offline ex_state \<and>
   \<not> offline (snd (fullSync ex_env ex_parse gw_sales_errors ex_state))"
proof -
  have n: "first_rejection (fetch_results gw_sales_errors ex_state) = None"
    by (simp add: ex_fetch_results)
  have s: "medicines ex_state = [ex_m1_local, ex_m2_local]" "offline ex_state"
    by (simp_all add: ex_state_def)
  show ?thesis
    by (simp add: fullSync_unfold [OF ex_env_configured] n replay_frame merge_fetched_def
        ex_fetch_results ex_merge_medicines s)
qed

section \<open>Without configuration\<close>

text \<open>
  C8. When the remote store is not configured, \<open>fullSync\<close> returns and leaves the whole
  state as it was: the four collections, the queue, the connectivity flag, and the log of
  requests, so no request has been sent. The same holds for \<open>processQueue\<close> and the four
  upserts; none of them throws.
\<close>

theorem not_configured_is_noop:
  "\<not> isSupabaseConfigured e \<Longrightarrow>
     fullSync e parse gw s = (Returned, s) \<and> processQueue e gw s = (Returned, s) \<and>
     syncMedicines e gw s = (Returned, s) \<and> syncSales e gw s = (Returned, s) \<and>
     syncRefunds e gw s = (Returned, s) \<and> syncExpenses e gw s = (Returned, s)"
  by (simp add: fullSync_def processQueue_def syncMedicines_def syncSales_def
      syncRefunds_def syncExpenses_def)

text \<open>
  With neither setting defined, in the scenario.
\<close>

theorem not_configured_is_noop_witness:
  "fullSync ex_env_unset ex_parse gw_ok ex_state = (Returned, ex_state) \<and>
   processQueue ex_env_unset gw_ok ex_state = (Returned, ex_state) \<and>
   syncMedicines ex_env_unset gw_ok ex_state = (Returned, ex_state) \<and>
   syncSales ex_env_unset gw_ok ex_state = (Returned, ex_state) \<and>
   syncRefunds ex_env_unset gw_ok ex_state = (Returned, ex_state) \<and>
   syncExpenses ex_env_unset gw_ok ex_state = (Returned, ex_state)"
  using not_configured_is_noop [OF ex_env_unset_not_configured, of ex_parse gw_ok ex_state]
  by simp

section \<open>Properties of the audit log\<close>

lemma auditLog_add_bound:
  "length (auditLog_getAll st) \<le> 1000 \<Longrightarrow> length (auditLog_getAll (auditLog_add accepts log st)) \<le> 1000"
  by (simp add: auditLog_add_def Let_def)

lemma auditLog_fold_bound:
  "length (auditLog_getAll st) \<le> 1000 \<Longrightarrow>
   length (auditLog_getAll (fold (auditLog_add accepts) es st)) \<le> 1000"
  by (induction es arbitrary: st) (simp_all add: auditLog_add_bound)

lemma auditLog_add_getAll:
  "\<forall>ls. accepts ls \<Longrightarrow>
   auditLog_getAll (auditLog_add accepts log st) =
     drop (Suc (length (auditLog_getAll st)) - 1000) (auditLog_getAll st @ [log])"
  by (simp add: auditLog_add_def Let_def)

lemma auditLog_fold_getAll:
  "\<forall>ls. accepts ls \<Longrightarrow> length (auditLog_getAll st) \<le> 1000 \<Longrightarrow>
   auditLog_getAll (fold (auditLog_add accepts) es st) =
     drop (length (auditLog_getAll st @ es) - 1000) (auditLog_getAll st @ es)"
proof (induction es arbitrary: st)
  case Nil
  then show ?case by simp
next
  case (Cons e es)
  let ?g = "auditLog_getAll st"
  let ?k = "Suc (length ?g) - 1000"
  have g': "auditLog_getAll (auditLog_add accepts e st) = drop ?k (?g @ [e])"
    using Cons.prems by (simp add: auditLog_add_getAll)
  have b: "length (auditLog_getAll (auditLog_add accepts e st)) \<le> 1000"
    using Cons.prems by (simp add: auditLog_add_bound)
  have "drop ?k (?g @ [e]) @ es = drop ?k (?g @ e # es)" by simp
  moreover have "length (drop ?k (?g @ e # es)) - 1000 + ?k = length (?g @ e # es) - 1000"
    by simp
  ultimately show ?case
    using Cons.IH [OF Cons.prems(1) b]
    by (simp only: fold_simps g' drop_drop)
qed

text \<open>
  C9. A log of at most 1000 entries has at most 1000 entries after any number of \<open>add\<close>s,
  whether or not the browser stores each value. When it stores them all, the log holds
  the most recent 1000 of the entries it had and the entries added, oldest first; so after
  1001 different entries have been added to an empty log it holds 1000 entries, the first
  entry added is not among them and the second is the oldest.
\<close>

theorem auditLog_bounded_fifo:
  "(length (auditLog_getAll st) \<le> 1000 \<longrightarrow>
      length (auditLog_getAll (fold (auditLog_add accepts) es st)) \<le> 1000) \<and>
   ((\<forall>ls. accepts ls) \<and> length (auditLog_getAll st) \<le> 1000 \<longrightarrow>
      auditLog_getAll (fold (auditLog_add accepts) es st) =
        drop (length (auditLog_getAll st @ es) - 1000) (auditLog_getAll st @ es)) \<and>
   ((\<forall>ls. accepts ls) \<and> length es = 1001 \<and> distinct es \<longrightarrow>
      length (auditLog_getAll (fold (auditLog_add accepts) es Absent)) = 1000 \<and>
      es ! 0 \<notin> set (auditLog_getAll (fold (auditLog_add accepts) es Absent)) \<and>
      hd (auditLog_getAll (fold (auditLog_add accepts) es Absent)) = es ! 1)"
proof (intro conjI impI)
  assume "length (auditLog_getAll st) \<le> 1000"
  then show "length (auditLog_getAll (fold (auditLog_add accepts) es st)) \<le> 1000"
    by (rule auditLog_fold_bound)
next
  assume "(\<forall>ls. accepts ls) \<and> length (auditLog_getAll st) \<le> 1000"
  then show "auditLog_getAll (fold (auditLog_add accepts) es st) =
      drop (length (auditLog_getAll st @ es) - 1000) (auditLog_getAll st @ es)"
    by (simp add: auditLog_fold_getAll)
next
  assume a: "(\<forall>ls. accepts ls) \<and> length es = 1001 \<and> distinct es"
  then have g: "auditLog_getAll (fold (auditLog_add accepts) es Absent) = drop 1 es"
    using auditLog_fold_getAll [of accepts Absent es] by simp
  from a obtain x xs where es: "es = x # xs" by (cases es) auto
  with a obtain y ys where xs: "xs = y # ys" by (cases xs) auto
  have l: "length (drop 1 es) = 1000" using a by simp
  show "length (auditLog_getAll (fold (auditLog_add accepts) es Absent)) = 1000"
    unfolding g by (rule l)
  have n: "es ! 0 \<notin> set (drop 1 es)" using a by (simp add: es)
  show "es ! 0 \<notin> set (auditLog_getAll (fold (auditLog_add accepts) es Absent))"
    unfolding g by (rule n)
  have h: "hd (drop 1 es) = es ! 1" by (simp add: es xs)
  show "hd (auditLog_getAll (fold (auditLog_add accepts) es Absent)) = es ! 1"
    unfolding g by (rule h)
qed

text \<open>
  Adding the entries number 0 to 1000 to an empty log leaves the entries 1 to 1000.
\<close>

theorem auditLog_bounded_fifo_witness:
  "length (auditLog_getAll (fold (auditLog_add (\<lambda>ls. True)) (map ex_log [0..<1001]) Absent)) = 1000 \<and>
   auditLog_getAll (fold (auditLog_add (\<lambda>ls. True)) (map ex_log [0..<1001]) Absent) =
     map ex_log [1..<1001] \<and>
   ex_log 0 \<notin> set (auditLog_getAll (fold (auditLog_add (\<lambda>ls. True)) (map ex_log [0..<1001]) Absent)) \<and>
   hd (auditLog_getAll (fold (auditLog_add (\<lambda>ls. True)) (map ex_log [0..<1001]) Absent)) = ex_log 1"
proof -
  define es where "es = map ex_log [0..<1001]"
  have d: "distinct es"
    by (simp add: es_def distinct_map inj_on_def ex_log_def)
  have l: "length es = 1001" by (simp add: es_def)
  have n: "es ! 0 = ex_log 0" "es ! 1 = ex_log 1"
    by (simp_all add: es_def del: upt_Suc)
  have dr: "drop (length (auditLog_getAll Absent @ es) - 1000) (auditLog_getAll Absent @ es) =
      map ex_log [1..<1001]"
    by (simp add: es_def drop_map del: upt_Suc)
  note t = auditLog_bounded_fifo [of Absent "\<lambda>ls. True" es]
  from t have "auditLog_getAll (fold (auditLog_add (\<lambda>ls. True)) es Absent) =
      drop (length (auditLog_getAll Absent @ es) - 1000) (auditLog_getAll Absent @ es)"
    by simp
  then have a: "auditLog_getAll (fold (auditLog_add (\<lambda>ls. True)) es Absent) = map ex_log [1..<1001]"
    by (simp only: dr)
  from t d l have b: "length (auditLog_getAll (fold (auditLog_add (\<lambda>ls. True)) es Absent)) = 1000 \<and>
      es ! 0 \<notin> set (auditLog_getAll (fold (auditLog_add (\<lambda>ls. True)) es Absent)) \<and>
      hd (auditLog_getAll (fold (auditLog_add (\<lambda>ls. True)) es Absent)) = es ! 1"
    by blast
  from a [unfolded es_def] b [unfolded n, unfolded es_def] show ?thesis
    by blast
qed

end
